theory Spec2Isabelle
  imports Main "HOL-Library.Sublist" "HOL-Library.Multiset"
begin

section \<open>Data model\<close>

subsection \<open>Timestamps\<close>

text \<open>
  \<^verbatim>\<open>event.timestamp = DateTime.fromISO(message.time)\<close> stores a luxon \<^verbatim>\<open>DateTime\<close>.
  \<^verbatim>\<open>DateTime.fromISO\<close> never throws: on text it cannot parse it returns an invalid
  \<^verbatim>\<open>DateTime\<close>. The relational operators of JavaScript compare two such objects through
  \<^verbatim>\<open>valueOf()\<close>, which is the epoch time in milliseconds of a valid \<^verbatim>\<open>DateTime\<close> and
  \<^verbatim>\<open>NaN\<close> of an invalid one; every comparison with \<^verbatim>\<open>NaN\<close> is false.
\<close>

datatype DateTime = Instant int | InvalidDateTime

text \<open>\<open>None\<close> stands for \<^verbatim>\<open>NaN\<close>.\<close>

fun valueOf :: "DateTime \<Rightarrow> int option" where
  "valueOf (Instant ms) = Some ms"
| "valueOf InvalidDateTime = None"

fun isValid :: "DateTime \<Rightarrow> bool" where
  "isValid (Instant ms) = True"
| "isValid InvalidDateTime = False"

text \<open>\<^verbatim>\<open>a < b\<close> and \<^verbatim>\<open>a > b\<close> on two \<^verbatim>\<open>DateTime\<close> objects.\<close>

fun js_lt :: "DateTime \<Rightarrow> DateTime \<Rightarrow> bool" where
  "js_lt (Instant a) (Instant b) = (a < b)"
| "js_lt _ _ = False"

fun js_gt :: "DateTime \<Rightarrow> DateTime \<Rightarrow> bool" where
  "js_gt (Instant a) (Instant b) = (a > b)"
| "js_gt _ _ = False"

text \<open>
  The time field of a raw message is a string. The code looks at it only through
  \<^verbatim>\<open>DateTime.fromISO\<close>, so the model keeps what the parser makes of it: the instant
  that a well-formed ISO-8601 text denotes, or the text itself when it is not parseable.
\<close>

datatype time_text = ISO int | NotISO string

fun fromISO :: "time_text \<Rightarrow> DateTime" where
  "fromISO (ISO ms) = Instant ms"
| "fromISO (NotISO s) = InvalidDateTime"

subsection \<open>Raw messages and tape events\<close>

text \<open>
  The wire shape \<^verbatim>\<open>{ type, time, id, person?, data? }\<close>. An optional field that is
  absent (or \<^verbatim>\<open>null\<close>) is \<open>None\<close>; \<open>m_person = Some ''''\<close> is the empty string,
  which is present but falsy. \<open>m_data\<close> is opaque; \<open>None\<close> is an absent or falsy payload.
\<close>

record message =
  m_type :: string
  m_time :: time_text
  m_id :: string
  m_person :: "string option"
  m_data :: "string option"

text \<open>
  \<^verbatim>\<open>TapeEvent\<close>, with the fields that \<^verbatim>\<open>getTapeEventFromMessage\<close> sets
  (\<open>ident\<close> is the field \<^verbatim>\<open>id\<close>).
\<close>

record TapeEvent =
  title :: string
  timestamp :: DateTime
  ident :: string
  person :: "string option"
  data :: "string option"

subsection \<open>The timeline element\<close>

datatype mode = Journey | Livestream | JourneyAndStream

datatype error = TypeError | SyntaxError

text \<open>
  A property value that is \<^verbatim>\<open>undefined\<close>, \<^verbatim>\<open>null\<close> or a string. The strict
  comparison \<^verbatim>\<open>!==\<close> of two such values is their inequality: \<^verbatim>\<open>undefined\<close> and
  \<^verbatim>\<open>null\<close> differ, and two strings are compared by their text.
\<close>

datatype jsvalue = Undefined | Null | Str string

text \<open>
  The fields of \<^verbatim>\<open>Timeline.ELEMENT\<close> (\<open>etype\<close> is \<^verbatim>\<open>type\<close>, \<open>filter_prop\<close> is
  \<^verbatim>\<open>filter\<close>). \<^verbatim>\<open>filter\<close> starts \<^verbatim>\<open>undefined\<close>; \<^verbatim>\<open>streamId\<close> and
  \<^verbatim>\<open>pagination\<close> are \<^verbatim>\<open>string | null\<close>, with \<open>None\<close> for \<^verbatim>\<open>null\<close>. \<open>eventSource\<close> is the index in \<open>sources\<close> of the \<^verbatim>\<open>EventSource\<close>
  the element holds. The last two fields are the network as the element drives it:
  \<open>fetches\<close> lists the URL of every \<^verbatim>\<open>fetch\<close> issued, in order, and \<open>sources\<close>
  lists every \<^verbatim>\<open>EventSource\<close> created, with its URL and whether it is still open.
\<close>

record element =
  tapeEvents :: "TapeEvent list"
  baseURL :: string
  etype :: mode
  filter_prop :: jsvalue
  streamId :: "string option"
  pagination :: "string option"
  limit :: int
  eventSource :: "nat option"
  fetches :: "string list"
  sources :: "(string \<times> bool) list"

section \<open>The ordered buffer\<close>

text \<open>\<^verbatim>\<open>dequeuePastOneEvent\<close>: \<^verbatim>\<open>this.tapeEvents.shift()\<close> removes the element at index 0
  and leaves an empty array as it is.\<close>

definition dequeuePastOneEvent :: "element \<Rightarrow> element" where
  "dequeuePastOneEvent this =
     this\<lparr>tapeEvents := (case tapeEvents this of [] \<Rightarrow> [] | first # rest \<Rightarrow> rest)\<rparr>"

text \<open>
  The first loop of \<^verbatim>\<open>enqueueEvent\<close>:
  \<^verbatim>\<open>while (this.tapeEvents.length >= this.limit && this.type === "livestream") this.dequeuePastOneEvent();\<close>
  It does not end when \<open>limit \<le> 0\<close> in livestream mode, so its result is an option.
\<close>

partial_function (option) evictLoop :: "element \<Rightarrow> element option" where
  "evictLoop this =
     (if int (length (tapeEvents this)) \<ge> limit this \<and> etype this = Livestream
      then evictLoop (dequeuePastOneEvent this)
      else Some this)"

text \<open>
  The second loop of \<^verbatim>\<open>enqueueEvent\<close>, entered with \<open>currentIndex = 0\<close>:
  \<^verbatim>\<open>while (currentItem.timestamp > event.timestamp && currentIndex < this.tapeEvents.length)
    { currentIndex = currentIndex + 1; currentItem = this.tapeEvents[currentIndex]; }\<close>
  The test reads \<^verbatim>\<open>currentItem.timestamp\<close> first; when \<open>currentIndex\<close> is past the end,
  \<^verbatim>\<open>currentItem\<close> is \<^verbatim>\<open>undefined\<close> and the read throws a \<^verbatim>\<open>TypeError\<close>.
\<close>

function scanLoop :: "TapeEvent list \<Rightarrow> TapeEvent \<Rightarrow> nat \<Rightarrow> error + nat" where
  "scanLoop buf event currentIndex =
     (if currentIndex < length buf
      then (if js_gt (timestamp (buf ! currentIndex)) (timestamp event)
               \<and> currentIndex < length buf
            then scanLoop buf event (currentIndex + 1)
            else Inr currentIndex)
      else Inl TypeError)"
  by pat_completeness auto
termination
  by (relation "measure (\<lambda>(buf, event, currentIndex). length buf - currentIndex)") auto

declare scanLoop.simps [simp del]

text \<open>\<^verbatim>\<open>this.tapeEvents.splice(currentIndex, 0, event)\<close>.\<close>

definition splice0 :: "nat \<Rightarrow> 'a \<Rightarrow> 'a list \<Rightarrow> 'a list" where
  "splice0 i x xs = take i xs @ x # drop i xs"

text \<open>
  \<^verbatim>\<open>enqueueEvent\<close>. \<open>None\<close>: the call does not return; \<open>Some (Inl e)\<close>: it throws
  \<open>e\<close>; \<open>Some (Inr this')\<close>: it returns and leaves the element as \<open>this'\<close>.
\<close>

definition enqueueEvent :: "TapeEvent \<Rightarrow> element \<Rightarrow> (error + element) option" where
  "enqueueEvent event this0 =
     (case evictLoop this0 of
        None \<Rightarrow> None
      | Some this \<Rightarrow>
          Some (let dataLength = length (tapeEvents this) in
            if dataLength = 0
            then Inr (this\<lparr>tapeEvents := [event]\<rparr>)
            else if js_lt (timestamp (tapeEvents this ! 0)) (timestamp event)
            then Inr (this\<lparr>tapeEvents := event # tapeEvents this\<rparr>)
            else if js_gt (timestamp (tapeEvents this ! (dataLength - 1))) (timestamp event)
            then Inr (this\<lparr>tapeEvents := tapeEvents this @ [event]\<rparr>)
            else (case scanLoop (tapeEvents this) event 0 of
                    Inl err \<Rightarrow> Inl err
                  | Inr currentIndex \<Rightarrow>
                      Inr (this\<lparr>tapeEvents := splice0 currentIndex event (tapeEvents this)\<rparr>))))"


section \<open>The event normalizer\<close>

text \<open>
  \<^verbatim>\<open>hay.indexOf(needle)\<close>: the index of the first occurrence of \<open>needle\<close> in
  \<open>hay\<close>, or \<open>-1\<close> when there is none.
\<close>

fun indexOf :: "string \<Rightarrow> string \<Rightarrow> int" where
  "indexOf [] needle = (if needle = [] then 0 else - 1)"
| "indexOf (c # cs) needle =
     (if prefix needle (c # cs) then 0
      else (let r = indexOf cs needle in if r = - 1 then - 1 else r + 1))"

text \<open>
  \<^verbatim>\<open>getTapeEventFromMessage\<close>. The test \<^verbatim>\<open>message.person && ...\<close> is false for an absent
  person and for the empty string; \<^verbatim>\<open>if (message.data)\<close> copies a truthy payload.
\<close>

definition getTapeEventFromMessage :: "message \<Rightarrow> TapeEvent" where
  "getTapeEventFromMessage message =
     \<lparr>title = m_type message,
      timestamp = fromISO (m_time message),
      ident = m_id message,
      person = (case m_person message of
                  None \<Rightarrow> None
                | Some p \<Rightarrow> if p \<noteq> [] \<and> indexOf p ''anon'' = - 1 then Some p else None),
      data = m_data message\<rparr>"

section \<open>The stream coordinator\<close>

text \<open>Truthiness of a \<^verbatim>\<open>string | null\<close> value.\<close>

fun truthy :: "string option \<Rightarrow> bool" where
  "truthy None = False"
| "truthy (Some s) = (s \<noteq> [])"

text \<open>
  \<^verbatim>\<open>getAPIQueryParams(forJourney)\<close>. A \<^verbatim>\<open>null\<close> stream id reaches the URL as the text
  \<^verbatim>\<open>null\<close>.
\<close>

definition getAPIQueryParams :: "bool \<Rightarrow> element \<Rightarrow> string" where
  "getAPIQueryParams forJourney this =
     (let url0 = (case streamId this of None \<Rightarrow> ''null'' | Some s \<Rightarrow> s);
          url1 = (case filter_prop this of
                    Str f \<Rightarrow> if f \<noteq> [] then url0 @ ''&$filter='' @ f else url0
                  | _ \<Rightarrow> url0)
      in (case pagination this of
            Some p \<Rightarrow> if p \<noteq> [] then url1 @ ''&'' @ p
                      else if forJourney then url1 @ ''&$top=10'' else url1
          | None \<Rightarrow> if forJourney then url1 @ ''&$top=10'' else url1))"

text \<open>\<^verbatim>\<open>getJourney\<close> issues the request; its response is handled later, by
  \<open>getJourney_then\<close>.\<close>

definition getJourney :: "element \<Rightarrow> element" where
  "getJourney this =
     this\<lparr>fetches := fetches this @ [baseURL this @ ''/journey?'' @ getAPIQueryParams True this]\<rparr>"

text \<open>\<^verbatim>\<open>.map((z) => this.enqueueEvent(z))\<close>: the events are enqueued in order; a call
  that does not return, or throws, ends the run.\<close>

fun enqueueAll :: "TapeEvent list \<Rightarrow> element \<Rightarrow> (error + element) option" where
  "enqueueAll [] this = Some (Inr this)"
| "enqueueAll (z # zs) this =
     (case enqueueEvent z this of
        None \<Rightarrow> None
      | Some (Inl err) \<Rightarrow> Some (Inl err)
      | Some (Inr this') \<Rightarrow> enqueueAll zs this')"

text \<open>
  The callback that \<^verbatim>\<open>getJourney\<close> attaches to the response:
  \<^verbatim>\<open>x?.map((y) => getTapeEventFromMessage(y)).map((z) => this.enqueueEvent(z))\<close>.
  \<open>None\<close> is a \<^verbatim>\<open>null\<close> body. The callback has no argument but the body.
\<close>

definition getJourney_then :: "message list option \<Rightarrow> element \<Rightarrow> (error + element) option" where
  "getJourney_then x this =
     (case x of
        None \<Rightarrow> Some (Inr this)
      | Some ys \<Rightarrow> enqueueAll (map getTapeEventFromMessage ys) this)"

text \<open>\<^verbatim>\<open>EventSource.close()\<close> on the source with index \<open>h\<close>.\<close>

definition close :: "nat \<Rightarrow> (string \<times> bool) list \<Rightarrow> (string \<times> bool) list" where
  "close h srcs = (if h < length srcs then srcs[h := (fst (srcs ! h), False)] else srcs)"

text \<open>\<^verbatim>\<open>subscribeToStream\<close>.\<close>

definition subscribeToStream :: "element \<Rightarrow> element" where
  "subscribeToStream this0 =
     (let this1 = (case eventSource this0 of
                     None \<Rightarrow> this0
                   | Some h \<Rightarrow> this0\<lparr>sources := close h (sources this0)\<rparr>);
          this2 = (if etype this1 = Journey \<or> etype this1 = JourneyAndStream
                   then getJourney this1 else this1)
      in if etype this2 \<noteq> Journey
         then this2\<lparr>eventSource := Some (length (sources this2)),
                    sources := sources this2 @
                      [(baseURL this2 @ ''/real-time?'' @ getAPIQueryParams False this2, True)]\<rparr>
         else this2)"

text \<open>
  The payload of a push message is a string. The handler looks at it only through
  \<^verbatim>\<open>JSON.parse\<close>, so the model keeps what the parser makes of it: text that is not
  JSON, a falsy JSON value, or a message object of the wire shape.
\<close>

datatype json_text = NotJSON string | FalsyJSON | MessageJSON message

fun JSON_parse :: "json_text \<Rightarrow> error + message option" where
  "JSON_parse (NotJSON s) = Inl SyntaxError"
| "JSON_parse FalsyJSON = Inr None"
| "JSON_parse (MessageJSON m) = Inr (Some m)"

text \<open>
  \<^verbatim>\<open>eventSource.onmessage\<close>: the \<^verbatim>\<open>catch\<close> block is empty, so after a parse error
  \<^verbatim>\<open>data\<close> is still \<^verbatim>\<open>undefined\<close>.
\<close>

definition onmessage :: "json_text \<Rightarrow> element \<Rightarrow> (error + element) option" where
  "onmessage event_data this =
     (let data = (case JSON_parse event_data of Inl err \<Rightarrow> None | Inr v \<Rightarrow> v)
      in (case data of
            None \<Rightarrow> Some (Inr this)
          | Some m \<Rightarrow> enqueueEvent (getTapeEventFromMessage m) this))"

text \<open>\<^verbatim>\<open>eventSource.onerror\<close>.\<close>

definition onerror :: "element \<Rightarrow> element" where
  "onerror this = subscribeToStream this"

text \<open>
  \<^verbatim>\<open>updated(changedProperties)\<close>: \<open>changedProperties\<close> maps the name of each changed
  property to its old value; the code reads the old value of \<^verbatim>\<open>filter\<close> only,
  in the test \<^verbatim>\<open>this.filter !== oldValue\<close>.
  \<^verbatim>\<open>requestUpdate()\<close> asks for a new rendering and changes no field.
\<close>

definition updated :: "(string \<times> jsvalue) list \<Rightarrow> element \<Rightarrow> element" where
  "updated changedProperties this =
     (let flag = foldl (\<lambda>flag (name, oldValue).
                   if name = ''streamId'' \<and> truthy (streamId this) then True
                   else if name = ''filter'' \<and> filter_prop this \<noteq> oldValue
                           \<and> truthy (streamId this) then True
                   else flag) False changedProperties
      in if flag then subscribeToStream (this\<lparr>tapeEvents := []\<rparr>) else this)"

section \<open>The specification's notions\<close>

text \<open>
  A buffer is newest first when no event is followed, anywhere later in the buffer, by
  an event with a strictly greater timestamp.
\<close>

definition newestFirst :: "TapeEvent list \<Rightarrow> bool" where
  "newestFirst buf = sorted_wrt (\<lambda>a b. \<not> js_lt (timestamp a) (timestamp b)) buf"

subsection \<open>Notions used in the proofs\<close>

text \<open>
  Where the second half of \<^verbatim>\<open>enqueueEvent\<close> puts the event in the buffer \<open>buf\<close> that
  the first loop has left: at the front, at the back, or at the index where the scan stops.
\<close>

definition placed :: "TapeEvent \<Rightarrow> TapeEvent list \<Rightarrow> nat \<Rightarrow> bool" where
  "placed event buf j =
     ((j = 0 \<and> (buf = [] \<or> js_lt (timestamp (buf ! 0)) (timestamp event)))
      \<or> (j = length buf \<and> buf \<noteq> []
           \<and> js_gt (timestamp (buf ! (length buf - 1))) (timestamp event))
      \<or> (j < length buf
           \<and> (\<forall>k<j. js_gt (timestamp (buf ! k)) (timestamp event))
           \<and> \<not> js_gt (timestamp (buf ! j)) (timestamp event)))"

text \<open>The instant of a valid timestamp, in milliseconds.\<close>

fun millis :: "DateTime \<Rightarrow> int" where
  "millis (Instant ms) = ms"
| "millis InvalidDateTime = 0"

subsection \<open>Example values\<close>

text \<open>
  An event and a raw message with a given time and nothing else of note, an event whose
  timestamp is invalid, and an element with a given mode, limit and buffer that has not
  subscribed yet.
\<close>

definition ev :: "int \<Rightarrow> TapeEvent" where
  "ev t = \<lparr>title = ''Page Visit'', timestamp = Instant t, ident = ''e'',
           person = None, data = None\<rparr>"

definition undated :: TapeEvent where
  "undated = \<lparr>title = ''Page Visit'', timestamp = InvalidDateTime, ident = ''e'',
              person = None, data = None\<rparr>"

definition raw :: "time_text \<Rightarrow> message" where
  "raw t = \<lparr>m_type = ''Page Visit'', m_time = t, m_id = ''e'',
            m_person = None, m_data = None\<rparr>"

definition timeline :: "mode \<Rightarrow> int \<Rightarrow> TapeEvent list \<Rightarrow> element" where
  "timeline ty n buf =
     \<lparr>tapeEvents = buf, baseURL = ''https://trycjaas.exp.bz'', etype = ty,
      filter_prop = Undefined, streamId = Some ''A'', pagination = None, limit = n,
      eventSource = None, fetches = [], sources = []\<rparr>"

section \<open>The two loops of enqueueEvent\<close>

lemma evictLoop_not_livestream:
  "etype this \<noteq> Livestream \<Longrightarrow> evictLoop this = Some this"
  by (subst evictLoop.simps) simp

lemma evictLoop_below_limit:
  "int (length (tapeEvents this)) < limit this \<Longrightarrow> evictLoop this = Some this"
  by (subst evictLoop.simps) simp

lemma evictLoop_livestream:
  assumes "etype this = Livestream" and "1 \<le> limit this"
  shows "evictLoop this =
           Some (this\<lparr>tapeEvents :=
                   drop (length (tapeEvents this) - (nat (limit this) - 1)) (tapeEvents this)\<rparr>)"
  using assms
proof (induction "tapeEvents this" arbitrary: this)
  case Nil
  then show ?case by (subst evictLoop.simps) simp
next
  case (Cons first rest)
  show ?case
  proof (cases "int (length (tapeEvents this)) \<ge> limit this")
    case False
    then have "length (tapeEvents this) - (nat (limit this) - 1) = 0" by linarith
    with False show ?thesis by (simp add: evictLoop_below_limit)
  next
    case True
    let ?next = "dequeuePastOneEvent this"
    have tl: "tapeEvents ?next = rest"
      using Cons.hyps(2) [symmetric] by (simp add: dequeuePastOneEvent_def)
    have same: "etype ?next = Livestream" "limit ?next = limit this"
      using Cons.prems by (simp_all add: dequeuePastOneEvent_def)
    have ih: "evictLoop ?next =
       Some (?next\<lparr>tapeEvents := drop (length rest - (nat (limit this) - 1)) rest\<rparr>)"
      using Cons.hyps(1) [of ?next] tl same Cons.prems by simp
    have step: "evictLoop this = evictLoop ?next"
      using True Cons.prems by (subst evictLoop.simps) simp
    have len: "length (tapeEvents this) = Suc (length rest)"
      using Cons.hyps(2) [symmetric] by simp
    have "drop (length (tapeEvents this) - (nat (limit this) - 1)) (tapeEvents this)
          = drop (length rest - (nat (limit this) - 1)) rest"
    proof -
      have "length (tapeEvents this) - (nat (limit this) - 1)
            = Suc (length rest - (nat (limit this) - 1))"
        using True len Cons.prems by linarith
      then show ?thesis using Cons.hyps(2) [symmetric] by simp
    qed
    then show ?thesis
      unfolding step ih by (simp add: dequeuePastOneEvent_def)
  qed
qed

lemma evictLoop_diverges_aux:
  assumes "evictLoop this = Some r"
  shows "\<not> (limit this \<le> 0 \<and> etype this = Livestream)"
proof (rule evictLoop.raw_induct
        [where P = "\<lambda>this r. \<not> (limit this \<le> 0 \<and> etype this = Livestream)", OF _ assms])
  fix f :: "element \<Rightarrow> element option" and this r
  assume IH: "\<And>x y. f x = Some y \<Longrightarrow> \<not> (limit x \<le> 0 \<and> etype x = Livestream)"
    and body: "(if int (length (tapeEvents this)) \<ge> limit this \<and> etype this = Livestream
                then f (dequeuePastOneEvent this) else Some this) = Some r"
  show "\<not> (limit this \<le> 0 \<and> etype this = Livestream)"
  proof
    assume bad: "limit this \<le> 0 \<and> etype this = Livestream"
    then have "f (dequeuePastOneEvent this) = Some r" using body by simp
    from IH [OF this] bad show False by (simp add: dequeuePastOneEvent_def)
  qed
qed

lemma evictLoop_diverges:
  "limit this \<le> 0 \<Longrightarrow> etype this = Livestream \<Longrightarrow> evictLoop this = None"
  using evictLoop_diverges_aux [of this] by (cases "evictLoop this") auto

lemma scanLoop_Inr:
  "scanLoop buf event i = Inr j \<Longrightarrow>
     i \<le> j \<and> j < length buf
     \<and> (\<forall>k. i \<le> k \<and> k < j \<longrightarrow> js_gt (timestamp (buf ! k)) (timestamp event))
     \<and> \<not> js_gt (timestamp (buf ! j)) (timestamp event)"
proof (induction buf event i rule: scanLoop.induct)
  case (1 buf event i)
  show ?case
  proof (cases "i < length buf \<and> js_gt (timestamp (buf ! i)) (timestamp event)")
    case True
    then have "scanLoop buf event (i + 1) = Inr j"
      using "1.prems" by (simp add: scanLoop.simps [of buf event i])
    with "1.IH" True have ih: "i + 1 \<le> j \<and> j < length buf
     \<and> (\<forall>k. i + 1 \<le> k \<and> k < j \<longrightarrow> js_gt (timestamp (buf ! k)) (timestamp event))
     \<and> \<not> js_gt (timestamp (buf ! j)) (timestamp event)" by simp
    have "\<And>k. i \<le> k \<Longrightarrow> k < j \<Longrightarrow> js_gt (timestamp (buf ! k)) (timestamp event)"
    proof -
      fix k assume "i \<le> k" "k < j"
      then show "js_gt (timestamp (buf ! k)) (timestamp event)"
        using ih True by (cases "k = i") auto
    qed
    with ih show ?thesis by auto
  next
    case False
    with "1.prems" show ?thesis by (auto simp: scanLoop.simps [of buf event i] split: if_splits)
  qed
qed

lemma scanLoop_stops:
  "i < length buf \<Longrightarrow> \<not> js_gt (timestamp (buf ! (length buf - 1))) (timestamp event) \<Longrightarrow>
     \<exists>j. scanLoop buf event i = Inr j"
proof (induction buf event i rule: scanLoop.induct)
  case (1 buf event i)
  show ?case
  proof (cases "js_gt (timestamp (buf ! i)) (timestamp event)")
    case True
    with "1.prems" have "i \<noteq> length buf - 1" by auto
    with "1.prems" have "i + 1 < length buf" by linarith
    with "1.IH" True "1.prems" show ?thesis
      by (simp add: scanLoop.simps [of buf event i])
  next
    case False
    with "1.prems" show ?thesis by (simp add: scanLoop.simps [of buf event i])
  qed
qed

lemma evictLoop_returns:
  assumes "1 \<le> limit this0 \<or> etype this0 \<noteq> Livestream"
  shows "\<exists>this. evictLoop this0 = Some this"
proof (cases "etype this0 = Livestream")
  case True
  with assms evictLoop_livestream [of this0] show ?thesis by simp
next
  case False
  then show ?thesis by (simp add: evictLoop_not_livestream)
qed

lemma evictLoop_Some:
  assumes "evictLoop this0 = Some this"
  shows "\<exists>k. this = this0\<lparr>tapeEvents := drop k (tapeEvents this0)\<rparr>
           \<and> (etype this0 \<noteq> Livestream \<longrightarrow> k = 0)
           \<and> (etype this0 = Livestream \<longrightarrow>
                 1 \<le> limit this0 \<and> k = length (tapeEvents this0) - (nat (limit this0) - 1))"
proof (cases "etype this0 = Livestream")
  case False
  with assms have "this = this0" by (simp add: evictLoop_not_livestream)
  with False show ?thesis by (intro exI [of _ 0]) simp
next
  case True
  with assms evictLoop_diverges [of this0] have lim: "1 \<le> limit this0"
    by (cases "limit this0 \<le> 0") auto
  with True assms evictLoop_livestream [of this0] show ?thesis by auto
qed

section \<open>Where enqueueEvent inserts\<close>

lemma enqueueEvent_shape:
  assumes "evictLoop this0 = Some this"
  shows "\<exists>j. placed event (tapeEvents this) j
           \<and> enqueueEvent event this0 =
               Some (Inr (this\<lparr>tapeEvents := splice0 j event (tapeEvents this)\<rparr>))"
proof -
  let ?buf = "tapeEvents this"
  consider (at_empty) "?buf = []"
    | (at_front) "?buf \<noteq> []" "js_lt (timestamp (?buf ! 0)) (timestamp event)"
    | (at_back) "?buf \<noteq> []" "\<not> js_lt (timestamp (?buf ! 0)) (timestamp event)"
        "js_gt (timestamp (?buf ! (length ?buf - 1))) (timestamp event)"
    | (at_middle) "?buf \<noteq> []" "\<not> js_lt (timestamp (?buf ! 0)) (timestamp event)"
        "\<not> js_gt (timestamp (?buf ! (length ?buf - 1))) (timestamp event)"
    by blast
  then show ?thesis
  proof cases
    case at_empty
    then show ?thesis using assms
      by (intro exI [of _ 0]) (simp add: enqueueEvent_def placed_def splice0_def)
  next
    case at_front
    then show ?thesis using assms
      by (intro exI [of _ 0]) (simp add: enqueueEvent_def placed_def splice0_def)
  next
    case at_back
    then show ?thesis using assms
      by (intro exI [of _ "length ?buf"]) (simp add: enqueueEvent_def placed_def splice0_def)
  next
    case at_middle
    then obtain j where j: "scanLoop ?buf event 0 = Inr j"
      using scanLoop_stops [of 0 ?buf event] by auto
    from scanLoop_Inr [OF j] have "placed event ?buf j" by (simp add: placed_def)
    then show ?thesis using assms at_middle j
      by (intro exI [of _ j]) (simp add: enqueueEvent_def)
  qed
qed


lemma splice0_length: "length (splice0 j x xs) = Suc (length xs)"
  by (simp add: splice0_def)

lemma splice0_mset: "mset (splice0 j x xs) = add_mset x (mset xs)"
proof -
  have "mset (take j xs) + mset (drop j xs) = mset xs"
    by (metis append_take_drop_id mset_append)
  then show ?thesis by (simp add: splice0_def)
qed

lemma splice0_set: "set (splice0 j x xs) = insert x (set xs)"
  using splice0_mset [of j x xs] by (metis set_mset_add_mset_insert set_mset_mset)

lemma enqueueEvent_returns:
  assumes "1 \<le> limit this0 \<or> etype this0 \<noteq> Livestream"
  shows "\<exists>j k. enqueueEvent event this0 =
             Some (Inr (this0\<lparr>tapeEvents := splice0 j event (drop k (tapeEvents this0))\<rparr>))
           \<and> placed event (drop k (tapeEvents this0)) j
           \<and> (etype this0 \<noteq> Livestream \<longrightarrow> k = 0)
           \<and> (etype this0 = Livestream \<longrightarrow>
                 k = length (tapeEvents this0) - (nat (limit this0) - 1))"
proof -
  from evictLoop_returns [OF assms] obtain this where ev: "evictLoop this0 = Some this" ..
  from evictLoop_Some [OF ev] obtain k where
    k: "this = this0\<lparr>tapeEvents := drop k (tapeEvents this0)\<rparr>"
       "etype this0 \<noteq> Livestream \<longrightarrow> k = 0"
       "etype this0 = Livestream \<longrightarrow> k = length (tapeEvents this0) - (nat (limit this0) - 1)"
    by blast
  from enqueueEvent_shape [OF ev, of event] obtain j where
    j: "placed event (tapeEvents this) j"
       "enqueueEvent event this0 =
          Some (Inr (this\<lparr>tapeEvents := splice0 j event (tapeEvents this)\<rparr>))"
    by blast
  show ?thesis
    using j k by (intro exI [of _ j] exI [of _ k]) simp
qed

lemma enqueueEvent_diverges:
  "limit this0 \<le> 0 \<Longrightarrow> etype this0 = Livestream \<Longrightarrow> enqueueEvent event this0 = None"
  by (simp add: enqueueEvent_def evictLoop_diverges)

lemma enqueueEvent_livestream_length:
  assumes "etype this0 = Livestream" "1 \<le> limit this0"
  shows "\<exists>this'. enqueueEvent event this0 = Some (Inr this')
           \<and> int (length (tapeEvents this')) \<le> limit this0"
proof -
  from enqueueEvent_returns [of this0 event] assms obtain j k where
    "enqueueEvent event this0 =
       Some (Inr (this0\<lparr>tapeEvents := splice0 j event (drop k (tapeEvents this0))\<rparr>))"
    "k = length (tapeEvents this0) - (nat (limit this0) - 1)"
    by blast
  then show ?thesis using assms by (auto simp: splice0_length)
qed

section \<open>Ordering with valid timestamps\<close>

lemma js_lt_valid: "isValid a \<Longrightarrow> isValid b \<Longrightarrow> js_lt a b = (millis a < millis b)"
  by (cases a; cases b) simp_all

lemma js_gt_valid: "isValid a \<Longrightarrow> isValid b \<Longrightarrow> js_gt a b = (millis b < millis a)"
  by (cases a; cases b) simp_all

lemma newestFirst_valid:
  assumes "\<forall>x\<in>set buf. isValid (timestamp x)"
  shows "newestFirst buf = sorted_wrt (\<lambda>a b. millis (timestamp b) \<le> millis (timestamp a)) buf"
  using assms unfolding newestFirst_def
  by (induction buf) (auto simp: js_lt_valid)

lemma placed_keeps_newestFirst:
  assumes valid: "\<forall>x\<in>set buf. isValid (timestamp x)" "isValid (timestamp event)"
    and sorted: "newestFirst buf"
    and placed: "placed event buf j"
  shows "newestFirst (splice0 j event buf)"
proof -
  let ?key = "\<lambda>x. millis (timestamp x)"
  let ?P = "\<lambda>a b. ?key b \<le> ?key a"
  have s: "sorted_wrt ?P buf" using sorted valid by (simp add: newestFirst_valid)
  have v': "\<forall>x\<in>set (splice0 j event buf). isValid (timestamp x)"
    using valid by (simp add: splice0_set)
  have nth: "\<And>a b. a < b \<Longrightarrow> b < length buf \<Longrightarrow> ?key (buf ! b) \<le> ?key (buf ! a)"
    using s by (simp add: sorted_wrt_iff_nth_less)
  have gt: "\<And>k. k < length buf \<Longrightarrow>
      js_gt (timestamp (buf ! k)) (timestamp event) = (?key event < ?key (buf ! k))"
    using valid by (simp add: js_gt_valid)
  have lt: "\<And>k. k < length buf \<Longrightarrow>
      js_lt (timestamp (buf ! k)) (timestamp event) = (?key (buf ! k) < ?key event)"
    using valid by (simp add: js_lt_valid)
  have before: "\<forall>x\<in>set (take j buf). ?key event \<le> ?key x"
  proof
    fix x assume "x \<in> set (take j buf)"
    then obtain k where k: "k < j" "k < length buf" "x = buf ! k"
      by (auto simp: in_set_conv_nth)
    from placed consider "j = 0"
      | "j = length buf" "js_gt (timestamp (buf ! (length buf - 1))) (timestamp event)"
        "buf \<noteq> []"
      | "\<forall>k<j. js_gt (timestamp (buf ! k)) (timestamp event)"
      unfolding placed_def by blast
    then show "?key event \<le> ?key x"
    proof cases
      case 1 with k show ?thesis by simp
    next
      case 2
      then have "?key event < ?key (buf ! (length buf - 1))"
        using gt [of "length buf - 1"] by simp
      moreover have "?key (buf ! (length buf - 1)) \<le> ?key (buf ! k)"
        using nth [of k "length buf - 1"] k by (cases "k = length buf - 1") auto
      ultimately show ?thesis using k by simp
    next
      case 3
      then show ?thesis using k gt [of k] by simp
    qed
  qed
  have after: "\<forall>x\<in>set (drop j buf). ?key x \<le> ?key event"
  proof
    fix x assume "x \<in> set (drop j buf)"
    then obtain k where k: "j \<le> k" "k < length buf" "x = buf ! k"
      by (auto simp: in_set_conv_nth) (metis add.commute le_add2 less_diff_conv)
    from placed consider "buf = []"
      | "j = 0" "js_lt (timestamp (buf ! 0)) (timestamp event)"
      | "j = length buf"
      | "j < length buf" "\<not> js_gt (timestamp (buf ! j)) (timestamp event)"
      unfolding placed_def by blast
    then show "?key x \<le> ?key event"
    proof cases
      case 1 with k show ?thesis by simp
    next
      case 2
      moreover have "0 < length buf" using k by linarith
      ultimately have "?key (buf ! 0) < ?key event" using lt [of 0] by simp
      moreover have "?key (buf ! k) \<le> ?key (buf ! 0)"
        using nth [of 0 k] k by (cases "k = 0") auto
      ultimately show ?thesis using k by simp
    next
      case 3 with k show ?thesis by simp
    next
      case 4
      then have "?key (buf ! j) \<le> ?key event" using gt [of j] by simp
      moreover have "?key (buf ! k) \<le> ?key (buf ! j)"
        using nth [of j k] k by (cases "k = j") auto
      ultimately show ?thesis using k by simp
    qed
  qed
  have "sorted_wrt ?P (take j buf @ event # drop j buf)"
    using s before after
    by (auto simp: sorted_wrt_append sorted_wrt_take sorted_wrt_drop
             dest: in_set_takeD in_set_dropD)
       (metis append_take_drop_id s sorted_wrt_append)
  then show ?thesis using v' by (simp add: newestFirst_valid splice0_def)
qed

section \<open>Runs of insertions\<close>

lemma enqueueAll_diverges:
  "events \<noteq> [] \<Longrightarrow> limit this \<le> 0 \<Longrightarrow> etype this = Livestream \<Longrightarrow>
     enqueueAll events this = None"
  by (cases events) (simp_all add: enqueueEvent_diverges)

lemma newestFirst_drop: "newestFirst buf \<Longrightarrow> newestFirst (drop k buf)"
  by (simp add: newestFirst_def sorted_wrt_drop)

lemma enqueueAll_keeps_newestFirst:
  assumes "1 \<le> limit this \<or> etype this \<noteq> Livestream"
    and "list_all (\<lambda>e. isValid (timestamp e)) events"
    and "list_all (\<lambda>e. isValid (timestamp e)) (tapeEvents this)"
    and "newestFirst (tapeEvents this)"
  shows "\<exists>this'. enqueueAll events this = Some (Inr this')
           \<and> newestFirst (tapeEvents this')"
  using assms
proof (induction events arbitrary: this)
  case Nil
  then show ?case by simp
next
  case (Cons e events)
  from enqueueEvent_returns [OF Cons.prems(1), of e] obtain j k where
    step: "enqueueEvent e this =
             Some (Inr (this\<lparr>tapeEvents := splice0 j e (drop k (tapeEvents this))\<rparr>))"
    and placed: "placed e (drop k (tapeEvents this)) j"
    by blast
  let ?next = "this\<lparr>tapeEvents := splice0 j e (drop k (tapeEvents this))\<rparr>"
  have valid_drop: "\<forall>x\<in>set (drop k (tapeEvents this)). isValid (timestamp x)"
    using Cons.prems(3) by (auto simp: list_all_iff dest: in_set_dropD)
  have valid_e: "isValid (timestamp e)" using Cons.prems(2) by simp
  have sorted': "newestFirst (tapeEvents ?next)"
    using placed_keeps_newestFirst
            [OF valid_drop valid_e newestFirst_drop [OF Cons.prems(4)] placed]
    by simp
  have valid': "list_all (\<lambda>e. isValid (timestamp e)) (tapeEvents ?next)"
    using valid_drop valid_e by (simp add: list_all_iff splice0_set)
  have mode: "1 \<le> limit ?next \<or> etype ?next \<noteq> Livestream"
    using Cons.prems(1) by simp
  have rest: "list_all (\<lambda>e. isValid (timestamp e)) events"
    using Cons.prems(2) by simp
  from Cons.IH [OF mode rest valid' sorted'] show ?case
    using step by simp
qed

lemma enqueueAll_keeps_all:
  assumes "etype this \<noteq> Livestream"
  shows "\<exists>this'. enqueueAll events this = Some (Inr this')
           \<and> mset (tapeEvents this') = mset (tapeEvents this) + mset events
           \<and> this' = this\<lparr>tapeEvents := tapeEvents this'\<rparr>"
  using assms
proof (induction events arbitrary: this)
  case Nil
  then show ?case by simp
next
  case (Cons e events)
  from enqueueEvent_returns [of this e] Cons.prems obtain j where
    step: "enqueueEvent e this =
             Some (Inr (this\<lparr>tapeEvents := splice0 j e (tapeEvents this)\<rparr>))"
    by auto
  let ?next = "this\<lparr>tapeEvents := splice0 j e (tapeEvents this)\<rparr>"
  have "etype ?next \<noteq> Livestream" using Cons.prems by simp
  from Cons.IH [OF this] obtain this' where
    "enqueueAll events ?next = Some (Inr this')"
    "mset (tapeEvents this') = mset (tapeEvents ?next) + mset events"
    "this' = ?next\<lparr>tapeEvents := tapeEvents this'\<rparr>"
    by blast
  then show ?case using step
    by (intro exI [of _ this']) (simp add: splice0_mset)
qed

section \<open>The normalizer and the coordinator\<close>

lemma indexOf_lower: "- 1 \<le> indexOf hay needle"
  by (induction hay) (auto simp: Let_def)

lemma indexOf_sublist: "(indexOf hay needle = - 1) = (\<not> sublist needle hay)"
proof (induction hay)
  case Nil
  then show ?case by simp
next
  case (Cons c cs)
  have "indexOf cs needle + 1 \<noteq> - 1" using indexOf_lower [of cs needle] by linarith
  with Cons show ?case by (auto simp: Let_def sublist_Cons_right)
qed

lemma normal_raw:
  "getTapeEventFromMessage (raw (ISO t)) = ev t"
  "getTapeEventFromMessage (raw (NotISO s)) = undated"
  by (simp_all add: getTapeEventFromMessage_def raw_def ev_def undated_def)

lemma updated_flag:
  "foldl (\<lambda>flag (name, oldValue).
            if name = ''streamId'' \<and> truthy (streamId this) then True
            else if name = ''filter'' \<and> filter_prop this \<noteq> oldValue
                    \<and> truthy (streamId this) then True
            else flag) b cp
   = (b \<or> (truthy (streamId this)
            \<and> (\<exists>old. (''streamId'', old) \<in> set cp
                   \<or> ((''filter'', old) \<in> set cp \<and> filter_prop this \<noteq> old))))"
proof (induction cp arbitrary: b)
  case Nil
  then show ?case by simp
next
  case (Cons a cp)
  obtain name oldValue where a: "a = (name, oldValue)" by (cases a)
  show ?case unfolding a by (simp add: Cons.IH) blast
qed

lemma updated_when_flagged:
  assumes "truthy (streamId this)"
    and "(''streamId'', old) \<in> set changedProperties
         \<or> ((''filter'', old) \<in> set changedProperties \<and> filter_prop this \<noteq> old)"
  shows "updated changedProperties this = subscribeToStream (this\<lparr>tapeEvents := []\<rparr>)"
  unfolding updated_def updated_flag using assms by auto

lemma subscribeToStream_keeps:
  "tapeEvents (subscribeToStream this) = tapeEvents this"
  "etype (subscribeToStream this) = etype this"
  "limit (subscribeToStream this) = limit this"
  "streamId (subscribeToStream this) = streamId this"
  "filter_prop (subscribeToStream this) = filter_prop this"
  "pagination (subscribeToStream this) = pagination this"
  "baseURL (subscribeToStream this) = baseURL this"
  by (simp_all add: subscribeToStream_def getJourney_def Let_def split: option.splits)

lemma close_length: "length (close h srcs) = length srcs"
  by (simp add: close_def)

lemma close_twice: "close h (close h srcs) = close h srcs"
  by (simp add: close_def)

lemma getAPIQueryParams_cong:
  "streamId a = streamId b \<Longrightarrow> filter_prop a = filter_prop b \<Longrightarrow> pagination a = pagination b \<Longrightarrow>
     getAPIQueryParams forJourney a = getAPIQueryParams forJourney b"
  by (simp add: getAPIQueryParams_def)

lemma subscribeToStream_params:
  "getAPIQueryParams forJourney (subscribeToStream this) = getAPIQueryParams forJourney this"
  by (rule getAPIQueryParams_cong) (simp_all add: subscribeToStream_keeps)

lemma subscribeToStream_fetches:
  "fetches (subscribeToStream this) =
     fetches this @ (if etype this = Livestream then []
                     else [baseURL this @ ''/journey?'' @ getAPIQueryParams True this])"
  by (cases "etype this")
     (auto simp: subscribeToStream_def getJourney_def Let_def
           intro!: arg_cong2 [where f = "(@)"] getAPIQueryParams_cong split: option.splits)

lemma subscribeToStream_sources:
  "sources (subscribeToStream this) =
     (case eventSource this of None \<Rightarrow> sources this | Some h \<Rightarrow> close h (sources this))
     @ (if etype this = Journey then []
        else [(baseURL this @ ''/real-time?'' @ getAPIQueryParams False this, True)])"
  by (cases "etype this")
     (auto simp: subscribeToStream_def getJourney_def Let_def
           intro!: getAPIQueryParams_cong split: option.splits)

lemma subscribeToStream_eventSource:
  "eventSource (subscribeToStream this) =
     (if etype this = Journey then eventSource this else Some (length (sources this)))"
  by (cases "etype this")
     (auto simp: subscribeToStream_def getJourney_def Let_def close_length split: option.splits)

section \<open>Claims\<close>

text \<open>
  C1. In livestream mode with \<open>limit = 3\<close>, inserting the event of time 6 into the buffer
  \<open>[5, 4, 3]\<close> evicts the head, the newest event 5, and leaves \<open>[6, 4, 3]\<close>: the
  eviction \<^verbatim>\<open>this.tapeEvents.shift()\<close> removes index 0 of the newest-first buffer, not
  its tail.
\<close>

theorem enqueueEvent_evicts_head:
  "enqueueEvent (ev 6) (timeline Livestream 3 [ev 5, ev 4, ev 3]) =
     Some (Inr (timeline Livestream 3 [ev 6, ev 4, ev 3]))"
  by (simp add: enqueueEvent_def evictLoop_livestream timeline_def ev_def)

text \<open>
  C2, as the claim states it, fails: an unparseable time gives an event with an invalid
  timestamp, every comparison with it is false, and the scan stops in front of it. The
  four events below are those of four raw messages; after their insertion, starting from
  the empty buffer, the event of time 6 stands ahead of the event of time 7.
\<close>

theorem enqueueAll_unsorted_counterexample:
  "map getTapeEventFromMessage
     [raw (NotISO ''yesterday''), raw (ISO 7), raw (NotISO ''last week''), raw (ISO 6)]
     = [undated, ev 7, undated, ev 6]
   \<and> enqueueAll [undated, ev 7, undated, ev 6] ((timeline Journey 5 [])\<lparr>tapeEvents := []\<rparr>) =
     Some (Inr (timeline Journey 5 [ev 6, undated, ev 7, undated]))
   \<and> \<not> newestFirst [ev 6, undated, ev 7, undated]"
  by (simp add: normal_raw enqueueEvent_def evictLoop_not_livestream timeline_def ev_def
        undated_def scanLoop.simps splice0_def newestFirst_def)

text \<open>
  C2, amended. For every sequence of insertions of events whose timestamps are valid,
  starting from the empty buffer, the buffer is sorted newest first after the last call
  (so after every call, the statement holding for every prefix of the sequence). The run
  returns, without a throw, except when \<open>limit \<le> 0\<close> in livestream mode, where the
  first call never returns.
\<close>

theorem enqueueAll_newestFirst:
  assumes "list_all (\<lambda>e. isValid (timestamp e)) events"
  shows "case enqueueAll events (this\<lparr>tapeEvents := []\<rparr>) of
           None \<Rightarrow> limit this \<le> 0 \<and> etype this = Livestream \<and> events \<noteq> []
         | Some r \<Rightarrow> (\<exists>this'. r = Inr this' \<and> newestFirst (tapeEvents this'))"
proof (cases "1 \<le> limit this \<or> etype this \<noteq> Livestream")
  case True
  then have "1 \<le> limit (this\<lparr>tapeEvents := []\<rparr>) \<or> etype (this\<lparr>tapeEvents := []\<rparr>) \<noteq> Livestream"
    by simp
  from enqueueAll_keeps_newestFirst [OF this assms]
  show ?thesis by (auto simp: newestFirst_def)
next
  case False
  then have bad: "limit this \<le> 0" "etype this = Livestream" by auto
  show ?thesis
  proof (cases "events = []")
    case True
    then show ?thesis by (simp add: newestFirst_def)
  next
    case False
    with enqueueAll_diverges [of events "this\<lparr>tapeEvents := []\<rparr>"] bad
    show ?thesis by simp
  qed
qed

theorem enqueueAll_newestFirst_witness:
  "list_all (\<lambda>e. isValid (timestamp e)) [ev 5, ev 7, ev 6]
   \<and> (case enqueueAll [ev 5, ev 7, ev 6] ((timeline Livestream 2 [])\<lparr>tapeEvents := []\<rparr>) of
         None \<Rightarrow> limit (timeline Livestream 2 []) \<le> 0
                  \<and> etype (timeline Livestream 2 []) = Livestream
                  \<and> [ev 5, ev 7, ev 6] \<noteq> []
       | Some r \<Rightarrow> (\<exists>this'. r = Inr this' \<and> newestFirst (tapeEvents this')))
   \<and> enqueueAll [ev 5, ev 7, ev 6] ((timeline Livestream 2 [])\<lparr>tapeEvents := []\<rparr>)
        = Some (Inr (timeline Livestream 2 [ev 6, ev 5]))"
proof -
  have h: "list_all (\<lambda>e. isValid (timestamp e)) [ev 5, ev 7, ev 6]"
    by (simp add: ev_def)
  have run: "enqueueAll [ev 5, ev 7, ev 6] ((timeline Livestream 2 [])\<lparr>tapeEvents := []\<rparr>)
        = Some (Inr (timeline Livestream 2 [ev 6, ev 5]))"
    by (simp add: enqueueEvent_def evictLoop_livestream timeline_def ev_def
          scanLoop.simps splice0_def)
  show ?thesis
    by (rule conjI [OF h conjI [OF enqueueAll_newestFirst [OF h] run]])
qed

text \<open>
  C3, as the claim states it, fails: in journey-and-stream mode a push message is
  inserted without any eviction. With \<open>limit = 1\<close> and one event in the buffer, the
  buffer holds two events after the insertion.
\<close>

theorem onmessage_no_eviction_counterexample:
  "onmessage (MessageJSON (raw (ISO 6))) (timeline JourneyAndStream 1 [ev 5])
     = Some (Inr (timeline JourneyAndStream 1 [ev 6, ev 5]))
   \<and> limit (timeline JourneyAndStream 1 [ev 6, ev 5]) = 1
   \<and> length (tapeEvents (timeline JourneyAndStream 1 [ev 6, ev 5])) = 2"
  by (simp add: onmessage_def normal_raw enqueueEvent_def evictLoop_not_livestream
        timeline_def ev_def)

text \<open>
  C3, amended. In journey-and-stream mode an insertion coming from the live stream
  enforces no capacity bound: the call returns, the buffer afterwards holds every
  event it held before and the new one, whatever \<open>limit\<close> is. Only the mode livestream
  evicts.
\<close>

theorem onmessage_journey_and_stream_keeps_all:
  assumes "etype this = JourneyAndStream"
  shows "\<exists>this'. onmessage (MessageJSON m) this = Some (Inr this')
           \<and> mset (tapeEvents this') = add_mset (getTapeEventFromMessage m) (mset (tapeEvents this))
           \<and> limit this' = limit this"
proof -
  from assms have "etype this \<noteq> Livestream" by simp
  from enqueueAll_keeps_all [OF this, of "[getTapeEventFromMessage m]"]
  obtain this' where
    run: "enqueueAll [getTapeEventFromMessage m] this = Some (Inr this')"
    and all: "mset (tapeEvents this') = mset (tapeEvents this) + mset [getTapeEventFromMessage m]"
    and same: "this' = this\<lparr>tapeEvents := tapeEvents this'\<rparr>"
    by blast
  from run have "enqueueEvent (getTapeEventFromMessage m) this = Some (Inr this')"
    by (auto split: option.splits sum.splits)
  moreover from same have "limit this' = limit this"
    by (metis element.select_convs(7) element.surjective element.update_convs(1))
  ultimately show ?thesis using all by (simp add: onmessage_def)
qed

theorem onmessage_journey_and_stream_keeps_all_witness:
  "etype (timeline JourneyAndStream 1 [ev 5]) = JourneyAndStream
   \<and> (\<exists>this'. onmessage (MessageJSON (raw (ISO 6))) (timeline JourneyAndStream 1 [ev 5])
                 = Some (Inr this')
        \<and> mset (tapeEvents this')
            = add_mset (getTapeEventFromMessage (raw (ISO 6)))
                (mset (tapeEvents (timeline JourneyAndStream 1 [ev 5])))
        \<and> limit this' = limit (timeline JourneyAndStream 1 [ev 5]))"
proof -
  have h: "etype (timeline JourneyAndStream 1 [ev 5]) = JourneyAndStream"
    by (simp add: timeline_def)
  show ?thesis
    by (rule conjI [OF h onmessage_journey_and_stream_keeps_all [OF h]])
qed

text \<open>
  C4, as the claim states it, fails: a message whose time is not parseable is
  normalized without any failure, into an event with an invalid timestamp, and the
  response callback of \<^verbatim>\<open>getJourney\<close> inserts it.
\<close>

theorem getJourney_then_inserts_undated_counterexample:
  "getJourney_then (Some [raw (NotISO ''yesterday''), raw (ISO 3)]) (timeline Journey 5 [])
     = Some (Inr (timeline Journey 5 [ev 3, undated]))
   \<and> timestamp undated = InvalidDateTime"
  by (simp add: getJourney_then_def normal_raw enqueueEvent_def evictLoop_not_livestream
        timeline_def ev_def undated_def scanLoop.simps splice0_def)

text \<open>
  C4, amended. For every raw message whose time is not parseable, normalization does
  not fail: it yields an event whose timestamp is invalid. In the modes that fetch a
  journey (journey and journey-and-stream) the response callback inserts that event
  like any other, and the whole batch is processed: the buffer afterwards holds what it
  held before and the event of every message of the batch.
\<close>

theorem unparseable_time_is_inserted:
  assumes "m_time m = NotISO s" and "etype this \<noteq> Livestream"
  shows "timestamp (getTapeEventFromMessage m) = InvalidDateTime
         \<and> (\<exists>this'. getJourney_then (Some (before @ m # after)) this = Some (Inr this')
               \<and> mset (tapeEvents this')
                   = mset (tapeEvents this)
                     + mset (map getTapeEventFromMessage (before @ m # after)))"
proof -
  have "timestamp (getTapeEventFromMessage m) = InvalidDateTime"
    using assms(1) by (simp add: getTapeEventFromMessage_def)
  moreover from enqueueAll_keeps_all
      [OF assms(2), of "map getTapeEventFromMessage (before @ m # after)"]
  have "\<exists>this'. getJourney_then (Some (before @ m # after)) this = Some (Inr this')
               \<and> mset (tapeEvents this')
                   = mset (tapeEvents this)
                     + mset (map getTapeEventFromMessage (before @ m # after))"
    unfolding getJourney_then_def by auto
  ultimately show ?thesis by blast
qed

theorem unparseable_time_is_inserted_witness:
  "m_time (raw (NotISO ''yesterday'')) = NotISO ''yesterday''
   \<and> etype (timeline Journey 5 []) \<noteq> Livestream
   \<and> timestamp (getTapeEventFromMessage (raw (NotISO ''yesterday''))) = InvalidDateTime
   \<and> (\<exists>this'. getJourney_then (Some ([raw (ISO 1)] @ raw (NotISO ''yesterday'') # [raw (ISO 3)]))
                 (timeline Journey 5 []) = Some (Inr this')
         \<and> mset (tapeEvents this')
             = mset (tapeEvents (timeline Journey 5 []))
               + mset (map getTapeEventFromMessage
                        ([raw (ISO 1)] @ raw (NotISO ''yesterday'') # [raw (ISO 3)])))"
proof -
  have h1: "m_time (raw (NotISO ''yesterday'')) = NotISO ''yesterday''"
    by (simp add: raw_def)
  have h2: "etype (timeline Journey 5 []) \<noteq> Livestream"
    by (simp add: timeline_def)
  from unparseable_time_is_inserted [OF h1 h2, of "[raw (ISO 1)]" "[raw (ISO 3)]"] h1 h2
  show ?thesis by blast
qed

text \<open>
  C5, as the claim states it, fails. An element in journey mode subscribes to stream A,
  which issues the fetch for A; the stream id changes to B, which clears the buffer and
  issues the fetch for B; then the response to the first fetch arrives. Its event is
  inserted: the callback carries no tag of the request it answers.
\<close>

theorem stale_response_counterexample:
  "subscribeToStream (timeline Journey 5 []) =
     (timeline Journey 5 [])\<lparr>fetches := [''https://trycjaas.exp.bz/journey?A&$top=10'']\<rparr>
   \<and> updated [(''streamId'', Str ''A'')]
       ((subscribeToStream (timeline Journey 5 []))\<lparr>streamId := Some ''B''\<rparr>) =
     (timeline Journey 5 [])
       \<lparr>streamId := Some ''B'',
        fetches := [''https://trycjaas.exp.bz/journey?A&$top=10'',
                    ''https://trycjaas.exp.bz/journey?B&$top=10'']\<rparr>
   \<and> getJourney_then (Some [raw (ISO 1)])
       (updated [(''streamId'', Str ''A'')]
          ((subscribeToStream (timeline Journey 5 []))\<lparr>streamId := Some ''B''\<rparr>)) =
     Some (Inr ((timeline Journey 5 [ev 1])
       \<lparr>streamId := Some ''B'',
        fetches := [''https://trycjaas.exp.bz/journey?A&$top=10'',
                    ''https://trycjaas.exp.bz/journey?B&$top=10'']\<rparr>))"
  by (simp add: updated_def subscribeToStream_def getJourney_def getAPIQueryParams_def
        getJourney_then_def normal_raw enqueueEvent_def evictLoop_not_livestream
        timeline_def Let_def)

text \<open>
  C5, amended. A response of a historical fetch that arrives after the stream id has
  changed (and the buffer has been cleared) is not discarded: in journey and
  journey-and-stream mode the response callback, which has no tag to compare, inserts
  every event of the response, so the buffer afterwards holds exactly the events of
  that response.
\<close>

theorem stale_response_is_inserted:
  assumes "etype this \<noteq> Livestream" and "new \<noteq> []"
  shows "\<exists>this'. getJourney_then (Some ys)
                   (updated [(''streamId'', old)] (this\<lparr>streamId := Some new\<rparr>))
                 = Some (Inr this')
           \<and> mset (tapeEvents this') = mset (map getTapeEventFromMessage ys)"
proof -
  let ?changed = "this\<lparr>streamId := Some new\<rparr>"
  have "truthy (streamId ?changed)" using assms(2) by simp
  moreover have "(''streamId'', old) \<in> set [(''streamId'', old)]" by simp
  ultimately have upd: "updated [(''streamId'', old)] ?changed
      = subscribeToStream (?changed\<lparr>tapeEvents := []\<rparr>)"
    by (intro updated_when_flagged) auto
  have mode: "etype (subscribeToStream (?changed\<lparr>tapeEvents := []\<rparr>)) \<noteq> Livestream"
    using assms(1) by (simp add: subscribeToStream_keeps)
  from enqueueAll_keeps_all [OF mode, of "map getTapeEventFromMessage ys"]
  show ?thesis
    unfolding upd getJourney_then_def by (auto simp: subscribeToStream_keeps)
qed

theorem stale_response_is_inserted_witness:
  "etype (subscribeToStream (timeline Journey 5 [ev 9])) \<noteq> Livestream
   \<and> ''B'' \<noteq> []
   \<and> (\<exists>this'. getJourney_then (Some [raw (ISO 1)])
                 (updated [(''streamId'', Str ''A'')]
                    ((subscribeToStream (timeline Journey 5 [ev 9]))\<lparr>streamId := Some ''B''\<rparr>))
               = Some (Inr this')
         \<and> mset (tapeEvents this') = mset (map getTapeEventFromMessage [raw (ISO 1)]))"
proof -
  have h1: "etype (subscribeToStream (timeline Journey 5 [ev 9])) \<noteq> Livestream"
    by (simp add: subscribeToStream_keeps timeline_def)
  have h2: "''B'' \<noteq> []" by simp
  from stale_response_is_inserted [OF h1 h2] h1 h2 show ?thesis by blast
qed

text \<open>
  C6, as the claim states it, fails: \<^verbatim>\<open>subscribeToStream\<close> has no guard. Called a
  second time on an element that is already subscribed, with nothing changed, it issues
  the same fetch again, closes the open live connection and opens another one.
\<close>

theorem resubscribe_counterexample:
  "subscribeToStream (timeline JourneyAndStream 5 []) =
     (timeline JourneyAndStream 5 [])
       \<lparr>eventSource := Some 0,
        fetches := [''https://trycjaas.exp.bz/journey?A&$top=10''],
        sources := [(''https://trycjaas.exp.bz/real-time?A'', True)]\<rparr>
   \<and> subscribeToStream (subscribeToStream (timeline JourneyAndStream 5 [])) =
     (timeline JourneyAndStream 5 [])
       \<lparr>eventSource := Some 1,
        fetches := [''https://trycjaas.exp.bz/journey?A&$top=10'',
                    ''https://trycjaas.exp.bz/journey?A&$top=10''],
        sources := [(''https://trycjaas.exp.bz/real-time?A'', False),
                    (''https://trycjaas.exp.bz/real-time?A'', True)]\<rparr>"
  by (simp add: subscribeToStream_def getJourney_def getAPIQueryParams_def close_def
        timeline_def Let_def)

text \<open>
  C6, amended. Invoking the subscribe operation a second time with an unchanged
  descriptor is not a no-op: unless the mode is livestream it issues the historical
  fetch again, and unless the mode is journey it closes the live connection that the
  first call opened and opens a new one.
\<close>

theorem resubscribe_repeats_network_calls:
  "fetches (subscribeToStream (subscribeToStream this)) =
     fetches (subscribeToStream this)
     @ (if etype this = Livestream then []
        else [baseURL this @ ''/journey?'' @ getAPIQueryParams True this])
   \<and> sources (subscribeToStream (subscribeToStream this)) =
     (if etype this = Journey then sources (subscribeToStream this)
      else close (length (sources this)) (sources (subscribeToStream this))
           @ [(baseURL this @ ''/real-time?'' @ getAPIQueryParams False this, True)])"
proof
  show "fetches (subscribeToStream (subscribeToStream this)) =
     fetches (subscribeToStream this)
     @ (if etype this = Livestream then []
        else [baseURL this @ ''/journey?'' @ getAPIQueryParams True this])"
    by (simp add: subscribeToStream_fetches [of "subscribeToStream this"]
          subscribeToStream_keeps subscribeToStream_params)
next
  show "sources (subscribeToStream (subscribeToStream this)) =
     (if etype this = Journey then sources (subscribeToStream this)
      else close (length (sources this)) (sources (subscribeToStream this))
           @ [(baseURL this @ ''/real-time?'' @ getAPIQueryParams False this, True)])"
  proof (cases "etype this = Journey")
    case True
    then show ?thesis
      by (simp add: subscribeToStream_sources [of "subscribeToStream this"]
            subscribeToStream_keeps subscribeToStream_eventSource)
         (simp add: subscribeToStream_sources close_twice split: option.splits)
  next
    case False
    then show ?thesis
      by (simp add: subscribeToStream_sources [of "subscribeToStream this"]
            subscribeToStream_keeps subscribeToStream_eventSource subscribeToStream_params)
  qed
qed

text \<open>
  C7. When \<^verbatim>\<open>updated\<close> is told that \<^verbatim>\<open>streamId\<close> has changed, or that
  \<^verbatim>\<open>filter\<close> has changed and differs (by \<^verbatim>\<open>!==\<close>) from its old value, and the
  stream id is set (not \<^verbatim>\<open>null\<close>, not the empty string), the buffer is reset to
  the empty sequence and the element subscribes again: unless the mode is livestream
  one more historical fetch is issued, for the current descriptor; the live connection
  the element held, if any, is closed; and unless the mode is journey a new live
  connection is opened, for the current descriptor, and becomes the one the element
  holds. The buffer is still empty when \<^verbatim>\<open>updated\<close> returns, so the reset precedes
  every later insertion. All of it is \<^verbatim>\<open>subscribeToStream\<close> run on the element with
  the empty buffer.
\<close>

theorem updated_clears_and_resubscribes:
  assumes "truthy (streamId this)"
    and "(''streamId'', old) \<in> set changedProperties
         \<or> ((''filter'', old) \<in> set changedProperties \<and> filter_prop this \<noteq> old)"
  shows "tapeEvents (updated changedProperties this) = []
         \<and> fetches (updated changedProperties this) =
             fetches this
             @ (if etype this = Livestream then []
                else [baseURL this @ ''/journey?'' @ getAPIQueryParams True this])
         \<and> sources (updated changedProperties this) =
             (case eventSource this of
                None \<Rightarrow> sources this
              | Some h \<Rightarrow> if h < length (sources this)
                          then (sources this)[h := (fst (sources this ! h), False)]
                          else sources this)
             @ (if etype this = Journey then []
                else [(baseURL this @ ''/real-time?'' @ getAPIQueryParams False this, True)])
         \<and> eventSource (updated changedProperties this) =
             (if etype this = Journey then eventSource this
              else Some (length (sources this)))
         \<and> updated changedProperties this = subscribeToStream (this\<lparr>tapeEvents := []\<rparr>)"
proof -
  let ?cleared = "this\<lparr>tapeEvents := []\<rparr>"
  from updated_when_flagged [OF assms]
  have upd: "updated changedProperties this = subscribeToStream ?cleared" .
  have params: "getAPIQueryParams forJourney ?cleared = getAPIQueryParams forJourney this"
    for forJourney
    by (rule getAPIQueryParams_cong) simp_all
  have "tapeEvents (subscribeToStream ?cleared) = []"
    by (simp add: subscribeToStream_keeps)
  moreover have "fetches (subscribeToStream ?cleared) =
             fetches this
             @ (if etype this = Livestream then []
                else [baseURL this @ ''/journey?'' @ getAPIQueryParams True this])"
    by (simp add: subscribeToStream_fetches params)
  moreover have "sources (subscribeToStream ?cleared) =
             (case eventSource this of
                None \<Rightarrow> sources this
              | Some h \<Rightarrow> if h < length (sources this)
                          then (sources this)[h := (fst (sources this ! h), False)]
                          else sources this)
             @ (if etype this = Journey then []
                else [(baseURL this @ ''/real-time?'' @ getAPIQueryParams False this, True)])"
    by (simp add: subscribeToStream_sources params close_def split: option.splits)
  moreover have "eventSource (subscribeToStream ?cleared) =
             (if etype this = Journey then eventSource this
              else Some (length (sources this)))"
    by (simp add: subscribeToStream_eventSource)
  ultimately show ?thesis unfolding upd by simp
qed

theorem updated_clears_and_resubscribes_witness:
  "tapeEvents (updated [(''streamId'', Str ''A'')]
      ((timeline JourneyAndStream 5 [ev 1])
         \<lparr>streamId := Some ''B'', eventSource := Some 0,
          sources := [(''https://trycjaas.exp.bz/real-time?A'', True)]\<rparr>)) = []
   \<and> fetches (updated [(''streamId'', Str ''A'')]
      ((timeline JourneyAndStream 5 [ev 1])
         \<lparr>streamId := Some ''B'', eventSource := Some 0,
          sources := [(''https://trycjaas.exp.bz/real-time?A'', True)]\<rparr>))
       = [''https://trycjaas.exp.bz/journey?B&$top=10'']
   \<and> sources (updated [(''streamId'', Str ''A'')]
      ((timeline JourneyAndStream 5 [ev 1])
         \<lparr>streamId := Some ''B'', eventSource := Some 0,
          sources := [(''https://trycjaas.exp.bz/real-time?A'', True)]\<rparr>))
       = [(''https://trycjaas.exp.bz/real-time?A'', False),
          (''https://trycjaas.exp.bz/real-time?B'', True)]
   \<and> eventSource (updated [(''streamId'', Str ''A'')]
      ((timeline JourneyAndStream 5 [ev 1])
         \<lparr>streamId := Some ''B'', eventSource := Some 0,
          sources := [(''https://trycjaas.exp.bz/real-time?A'', True)]\<rparr>)) = Some 1
   \<and> filter_prop ((timeline Livestream 5 [ev 1])\<lparr>filter_prop := Null\<rparr>) \<noteq> Undefined
   \<and> tapeEvents (updated [(''filter'', Undefined)]
        ((timeline Livestream 5 [ev 1])\<lparr>filter_prop := Null\<rparr>)) = []
   \<and> fetches (updated [(''filter'', Undefined)]
        ((timeline Livestream 5 [ev 1])\<lparr>filter_prop := Null\<rparr>)) = []
   \<and> sources (updated [(''filter'', Undefined)]
        ((timeline Livestream 5 [ev 1])\<lparr>filter_prop := Null\<rparr>))
       = [(''https://trycjaas.exp.bz/real-time?A'', True)]
   \<and> eventSource (updated [(''filter'', Undefined)]
        ((timeline Livestream 5 [ev 1])\<lparr>filter_prop := Null\<rparr>)) = Some 0"
proof -
  let ?a = "(timeline JourneyAndStream 5 [ev 1])
         \<lparr>streamId := Some ''B'', eventSource := Some 0,
          sources := [(''https://trycjaas.exp.bz/real-time?A'', True)]\<rparr>"
  let ?b = "(timeline Livestream 5 [ev 1])\<lparr>filter_prop := Null\<rparr>"
  have a1: "truthy (streamId ?a)" by simp
  have a2: "(''streamId'', Str ''A'') \<in> set [(''streamId'', Str ''A'')]" by simp
  have b1: "truthy (streamId ?b)" by (simp add: timeline_def)
  have b2: "(''filter'', Undefined) \<in> set [(''filter'', Undefined)]
            \<and> filter_prop ?b \<noteq> Undefined" by simp
  note ta = updated_clears_and_resubscribes [OF a1 disjI1 [OF a2]]
  from ta [THEN conjunct1] ta [THEN conjunct2, THEN conjunct1]
    ta [THEN conjunct2, THEN conjunct2, THEN conjunct1]
    ta [THEN conjunct2, THEN conjunct2, THEN conjunct2, THEN conjunct1]
  have a: "tapeEvents (updated [(''streamId'', Str ''A'')] ?a) = []
     \<and> fetches (updated [(''streamId'', Str ''A'')] ?a)
         = [''https://trycjaas.exp.bz/journey?B&$top=10'']
     \<and> sources (updated [(''streamId'', Str ''A'')] ?a)
         = [(''https://trycjaas.exp.bz/real-time?A'', False),
            (''https://trycjaas.exp.bz/real-time?B'', True)]
     \<and> eventSource (updated [(''streamId'', Str ''A'')] ?a) = Some 1"
    by (simp add: timeline_def getAPIQueryParams_def)
  note tb = updated_clears_and_resubscribes [OF b1 disjI2 [OF b2]]
  from tb [THEN conjunct1] tb [THEN conjunct2, THEN conjunct1]
    tb [THEN conjunct2, THEN conjunct2, THEN conjunct1]
    tb [THEN conjunct2, THEN conjunct2, THEN conjunct2, THEN conjunct1]
  have b: "tapeEvents (updated [(''filter'', Undefined)] ?b) = []
     \<and> fetches (updated [(''filter'', Undefined)] ?b) = []
     \<and> sources (updated [(''filter'', Undefined)] ?b)
         = [(''https://trycjaas.exp.bz/real-time?A'', True)]
     \<and> eventSource (updated [(''filter'', Undefined)] ?b) = Some 0"
    by (simp add: timeline_def getAPIQueryParams_def)
  from a b b2 show ?thesis by blast
qed

text \<open>
  C8, as the claim states it, fails for the empty string: it is a person value that does
  not contain \<^verbatim>\<open>anon\<close>, and the normalized event has no person.
\<close>

theorem person_empty_counterexample:
  "\<not> sublist ''anon'' ''''
   \<and> m_person ((raw (ISO 1))\<lparr>m_person := Some ''''\<rparr>) = Some ''''
   \<and> person (getTapeEventFromMessage ((raw (ISO 1))\<lparr>m_person := Some ''''\<rparr>)) = None"
  by (simp add: getTapeEventFromMessage_def raw_def)

text \<open>
  C8, amended. For every raw message with a person field: if the person value is the
  empty string or contains the substring \<^verbatim>\<open>anon\<close>, the normalized event has no
  person; otherwise its person is the raw person value, unchanged.
\<close>

theorem person_kept_unless_empty_or_anon:
  assumes "m_person m = Some p"
  shows "person (getTapeEventFromMessage m) = (if p = [] \<or> sublist ''anon'' p then None else Some p)"
  using assms indexOf_sublist [of p "''anon''"] by (auto simp: getTapeEventFromMessage_def)

theorem person_kept_unless_empty_or_anon_witness:
  "m_person ((raw (ISO 1))\<lparr>m_person := Some ''anon-123''\<rparr>) = Some ''anon-123''
   \<and> person (getTapeEventFromMessage ((raw (ISO 1))\<lparr>m_person := Some ''anon-123''\<rparr>)) = None
   \<and> m_person ((raw (ISO 1))\<lparr>m_person := Some ''alice''\<rparr>) = Some ''alice''
   \<and> person (getTapeEventFromMessage ((raw (ISO 1))\<lparr>m_person := Some ''alice''\<rparr>)) = Some ''alice''"
proof -
  have a: "m_person ((raw (ISO 1))\<lparr>m_person := Some ''anon-123''\<rparr>) = Some ''anon-123''"
    by simp
  have b: "m_person ((raw (ISO 1))\<lparr>m_person := Some ''alice''\<rparr>) = Some ''alice''"
    by simp
  have sa: "sublist ''anon'' ''anon-123''" by (simp add: sublist_Cons_right)
  have sb: "\<not> sublist ''anon'' ''alice''" by (simp add: sublist_Cons_right)
  from person_kept_unless_empty_or_anon [OF a] sa
  have ra: "person (getTapeEventFromMessage ((raw (ISO 1))\<lparr>m_person := Some ''anon-123''\<rparr>)) = None"
    by simp
  from person_kept_unless_empty_or_anon [OF b] sb
  have rb: "person (getTapeEventFromMessage ((raw (ISO 1))\<lparr>m_person := Some ''alice''\<rparr>)) = Some ''alice''"
    by simp
  from a ra b rb show ?thesis by blast
qed

text \<open>
  C9. When a push message whose payload is not valid JSON is delivered, the message
  handler returns without throwing and leaves the element, and so the buffer, as it
  was.
\<close>

theorem onmessage_not_JSON: "onmessage (NotJSON s) this = Some (Inr this)"
  by (simp add: onmessage_def)

text \<open>
  C10. In the middle-insertion branch of \<^verbatim>\<open>enqueueEvent\<close> (the buffer is not empty, the
  timestamp of the new event is not greater than the head's and not less than the
  tail's) on a buffer sorted newest first, the scan returns an index that is at most the
  buffer length minus one, and it reads no element past the end: it does not throw the
  \<^verbatim>\<open>TypeError\<close> of an out-of-range read. The tail stops the scan, since it is not greater
  than the new event.
\<close>

theorem scanLoop_within_bounds:
  assumes "buf \<noteq> []"
    and "\<not> js_lt (timestamp (buf ! 0)) (timestamp event)"
    and "\<not> js_gt (timestamp (buf ! (length buf - 1))) (timestamp event)"
    and "newestFirst buf"
  shows "\<exists>j. scanLoop buf event 0 = Inr j \<and> j \<le> length buf - 1"
proof -
  from assms(1) have "0 < length buf" by simp
  from scanLoop_stops [OF this assms(3)] obtain j where j: "scanLoop buf event 0 = Inr j" ..
  from scanLoop_Inr [OF j] have "j < length buf" by simp
  with j show ?thesis by auto
qed

theorem scanLoop_within_bounds_witness:
  "[ev 5, ev 3] \<noteq> []
   \<and> \<not> js_lt (timestamp ([ev 5, ev 3] ! 0)) (timestamp (ev 4))
   \<and> \<not> js_gt (timestamp ([ev 5, ev 3] ! (length [ev 5, ev 3] - 1))) (timestamp (ev 4))
   \<and> newestFirst [ev 5, ev 3]
   \<and> (\<exists>j. scanLoop [ev 5, ev 3] (ev 4) 0 = Inr j \<and> j \<le> length [ev 5, ev 3] - 1)"
proof -
  have h1: "[ev 5, ev 3] \<noteq> []" by simp
  have h2: "\<not> js_lt (timestamp ([ev 5, ev 3] ! 0)) (timestamp (ev 4))"
    by (simp add: ev_def)
  have h3: "\<not> js_gt (timestamp ([ev 5, ev 3] ! (length [ev 5, ev 3] - 1))) (timestamp (ev 4))"
    by (simp add: ev_def)
  have h4: "newestFirst [ev 5, ev 3]" by (simp add: newestFirst_def ev_def)
  from scanLoop_within_bounds [OF h1 h2 h3 h4] h1 h2 h3 h4 show ?thesis by blast
qed

end
